theory Spec2Isabelle
  imports
    Main
    "HOL-Library.Multiset"
    "HOL-Library.Char_ord"
    "HOL-Library.List_Lexorder"
    "HOL-Library.Product_Lexorder"
begin

section \<open>Beam implementations of the canonical analyzers\<close>

text \<open>
  A shallow embedding of \<^verbatim>\<open>tensorflow_transform/beam/analyzer_impls.py\<close>.

  A \<^verbatim>\<open>PCollection\<close> is an unordered bag.  It is modelled as a list, so that every
  definition computes, and every statement about the emitted vocabulary is shown not to
  depend on the order of that list.  Python exceptions are values of type \<open>error\<close>; a
  transform that may raise returns \<open>error + 'a\<close>.  Elements of a vocabulary are Python 2
  byte strings, modelled as \<open>string\<close>; their natural ordering is the lexicographic
  ordering on the bytes, which is the ordering of \<open>char list\<close> here.  Counts are
  Python integers, modelled as \<open>int\<close>.
\<close>

subsection \<open>Errors\<close>

datatype error =
    ValueError            \<comment> \<open>unpacking a sequence of the wrong length\<close>
  | AssertionError        \<comment> \<open>a failed \<^verbatim>\<open>assert\<close>\<close>
  | NotImplementedError   \<comment> \<open>raised by the dispatcher for an unknown kind of spec\<close>

subsection \<open>Batches and flattening\<close>

text \<open>
  An N-dimensional array is a scalar (dimension 0) or a sequence of sub-arrays along its
  first axis.  \<open>ravel\<close> reads the elements with the last index varying fastest.
\<close>

datatype 'a ndarray = Scalar 'a | Axis "'a ndarray list"

fun ravel :: "'a ndarray \<Rightarrow> 'a list" where
  "ravel (Scalar x) = [x]"
| "ravel (Axis xs) = concat (map ravel xs)"

text \<open>The array has the given shape (one extent per axis).\<close>

fun has_shape :: "nat list \<Rightarrow> 'a ndarray \<Rightarrow> bool" where
  "has_shape [] (Scalar x) = True"
| "has_shape (n # ns) (Axis xs) = (length xs = n \<and> list_all (has_shape ns) xs)"
| "has_shape _ _ = False"

text \<open>The element at a multi-index, \<^verbatim>\<open>a[i, j, ...]\<close>; \<open>None\<close> when out of range.\<close>

fun item :: "'a ndarray \<Rightarrow> nat list \<Rightarrow> 'a option" where
  "item (Scalar x) [] = Some x"
| "item (Axis xs) (i # idx) = (if i < length xs then item (xs ! i) idx else None)"
| "item _ _ = None"

text \<open>The row-major (C order) position of a multi-index in an array of the given shape.\<close>

fun row_major_offset :: "nat list \<Rightarrow> nat list \<Rightarrow> nat" where
  "row_major_offset (n # ns) (i # idx) = i * prod_list ns + row_major_offset ns idx"
| "row_major_offset _ _ = 0"

text \<open>
  \<^verbatim>\<open>batch_value, = batch_values\<close> unpacks a sequence of exactly one array and raises
  \<^verbatim>\<open>ValueError\<close> for any other length.
\<close>

fun flatten_value_to_list :: "'a ndarray list \<Rightarrow> error + 'a list" where
  "flatten_value_to_list [batch_value] = Inr (ravel batch_value)"
| "flatten_value_to_list _ = Inl ValueError"

subsection \<open>Beam and Python primitives\<close>

text \<open>
  The transforms of the Beam library that the analyzers are built from, by their
  documented behaviour.  \<^verbatim>\<open>beam.Map\<close> of a function that raises fails the pipeline.
\<close>

fun Map_beam :: "('a \<Rightarrow> error + 'b) \<Rightarrow> 'a list \<Rightarrow> error + 'b list" where
  "Map_beam f [] = Inr []"
| "Map_beam f (x # xs) =
     (case f x of
        Inl e \<Rightarrow> Inl e
      | Inr y \<Rightarrow> (case Map_beam f xs of Inl e \<Rightarrow> Inl e | Inr ys \<Rightarrow> Inr (y # ys)))"

definition FlatMap :: "('a \<Rightarrow> 'b list) \<Rightarrow> 'a list \<Rightarrow> 'b list" where
  "FlatMap f pcoll = concat (map f pcoll)"

definition Filter_beam :: "('a \<Rightarrow> bool) \<Rightarrow> 'a list \<Rightarrow> 'a list" where
  "Filter_beam p pcoll = filter p pcoll"

definition KvSwap :: "('k \<times> 'v) list \<Rightarrow> ('v \<times> 'k) list" where
  "KvSwap pcoll = map (\<lambda>(k, v). (v, k)) pcoll"

text \<open>
  \<^verbatim>\<open>collections.Counter(lst)\<close> is a dictionary filled by one pass over the list:
  \<^verbatim>\<open>self[elem] = self.get(elem, 0) + 1\<close>.  The dictionary is an association list
  with one pair per key; \<^verbatim>\<open>six.iteritems\<close> reads its pairs.
\<close>

fun Counter_incr :: "'a \<Rightarrow> ('a \<times> int) list \<Rightarrow> ('a \<times> int) list" where
  "Counter_incr x [] = [(x, 1)]"
| "Counter_incr x ((y, c) # m) =
     (if y = x then (y, c + 1) # m else (y, c) # Counter_incr x m)"

definition Counter :: "'a list \<Rightarrow> ('a \<times> int) list" where
  "Counter lst = fold Counter_incr lst []"

text \<open>
  \<^verbatim>\<open>beam.CombinePerKey(fn)\<close> groups the values of each key and emits one pair per
  distinct key, holding \<open>fn\<close> of the key's values.
\<close>

definition GroupByKey :: "('k \<times> 'v) list \<Rightarrow> ('k \<times> 'v list) list" where
  "GroupByKey pcoll =
     map (\<lambda>k. (k, map snd (filter (\<lambda>kv. fst kv = k) pcoll))) (remdups (map fst pcoll))"

definition CombinePerKey :: "('v list \<Rightarrow> 'w) \<Rightarrow> ('k \<times> 'v) list \<Rightarrow> ('k \<times> 'w) list" where
  "CombinePerKey fn pcoll = map (\<lambda>(k, vs). (k, fn vs)) (GroupByKey pcoll)"

text \<open>
  \<^verbatim>\<open>Top.Largest(n)\<close> emits a single list: the \<open>n\<close> greatest elements of the
  collection in decreasing order (all of them when there are fewer than \<open>n\<close>).
\<close>

definition Top_Largest :: "nat \<Rightarrow> 'a::linorder list \<Rightarrow> 'a list list" where
  "Top_Largest n pcoll = [take n (rev (sort pcoll))]"

text \<open>\<^verbatim>\<open>Reshuffle\<close> redistributes the elements and leaves the bag unchanged.\<close>

definition Reshuffle :: "'a list \<Rightarrow> 'a list" where
  "Reshuffle pcoll = pcoll"

text \<open>\<^verbatim>\<open>'{}'.format(count)\<close> of a Python integer: its decimal digits.\<close>

definition digit_char :: "nat \<Rightarrow> char" where
  "digit_char d = ''0123456789'' ! d"

function str_nat :: "nat \<Rightarrow> string" where
  "str_nat n = (if n < 10 then [digit_char n] else str_nat (n div 10) @ [digit_char (n mod 10)])"
  by pat_completeness auto
termination
  by (relation "measure id") auto

declare str_nat.simps [simp del]

definition str_int :: "int \<Rightarrow> string" where
  "str_int i = (if i < 0 then CHR ''-'' # str_nat (nat (- i)) else str_nat (nat i))"

text \<open>\<^verbatim>\<open>os.path.join(a, b)\<close> of \<^verbatim>\<open>posixpath\<close>, for two components.\<close>

definition os_path_join :: "string \<Rightarrow> string \<Rightarrow> string" where
  "os_path_join a b =
     (if b \<noteq> [] \<and> hd b = CHR ''/'' then b
      else if a = [] \<or> last a = CHR ''/'' then a @ b
      else a @ ''/'' @ b)"

subsection \<open>The uniques analyzer\<close>

record UniquesSpec =
  top_k :: "int option"
  frequency_threshold :: "int option"
  store_frequency :: bool
  vocab_filename :: string

text \<open>What running an analyzer leaves behind: the files written and the collection returned.\<close>

datatype 'r out_value = VocabularyPath string | Combined 'r

record 'r run =
  written :: "(string \<times> string list) list"
  returned :: "'r out_value list"

text \<open>Lines 94 to 101 after flattening: count within each list, then sum per element.\<close>

definition CountGlobally :: "'a list list \<Rightarrow> ('a \<times> int) list" where
  "CountGlobally lsts = CombinePerKey sum_list (FlatMap Counter lsts)"

text \<open>
  Lines 105 and 106: \<^verbatim>\<open>kv[0] and '\n' not in kv[0] and '\r' not in kv[0]\<close>; a string
  is true when it is not empty.
\<close>

definition FilterProblematicStrings :: "(string \<times> int) list \<Rightarrow> (string \<times> int) list" where
  "FilterProblematicStrings counts =
     Filter_beam (\<lambda>kv. fst kv \<noteq> [] \<and> CHR 0x0A \<notin> set (fst kv) \<and> CHR 0x0D \<notin> set (fst kv))
       counts"

definition FilterByFrequencyThreshold ::
  "int option \<Rightarrow> (int \<times> string) list \<Rightarrow> (int \<times> string) list" where
  "FilterByFrequencyThreshold threshold counts =
     (case threshold of
        None \<Rightarrow> counts
      | Some t \<Rightarrow> Filter_beam (\<lambda>kv. fst kv \<ge> t) counts)"

definition Top :: "int option \<Rightarrow> (int \<times> string) list \<Rightarrow> (int \<times> string) list" where
  "Top limit counts =
     (case limit of
        None \<Rightarrow> counts
      | Some k \<Rightarrow> FlatMap (\<lambda>lst. lst) (Top_Largest (nat k) counts))"

text \<open>
  The collection \<^verbatim>\<open>counts\<close> after the two filters (lines 94 to 113), from
  the flattened batches.
\<close>

definition filtered_counts :: "UniquesSpec \<Rightarrow> string list list \<Rightarrow> (int \<times> string) list" where
  "filtered_counts spec lsts =
     (let counts = CountGlobally lsts;
          counts = KvSwap (FilterProblematicStrings counts)
      in FilterByFrequencyThreshold (frequency_threshold spec) counts)"

text \<open>
  The collection \<^verbatim>\<open>counts\<close> that is handed to
  \<^verbatim>\<open>order_by_decreasing_counts\<close> (lines 115 to 125).
\<close>

definition surviving_counts :: "UniquesSpec \<Rightarrow> string list list \<Rightarrow> (int \<times> string) list" where
  "surviving_counts spec lsts =
     (let counts = filtered_counts spec lsts;
          counts = Top (top_k spec) counts
      in Reshuffle counts)"

definition sentinel :: "int \<times> string" where
  "sentinel = (1, ''49d0cd50-04bb-48c0-bc6f-5b575dce351a'')"

text \<open>
  Lines 132 to 135: the entries that are written.  Python compares the tuples by count
  and then by element; \<^verbatim>\<open>sort(reverse=True)\<close> puts the largest first.
\<close>

definition sorted_counts :: "(int \<times> string) list \<Rightarrow> (int \<times> string) list" where
  "sorted_counts counts_iter =
     (let counts = counts_iter;
          counts = (if counts = [] then [sentinel] else counts)
      in rev (sort counts))"

text \<open>The sample recorded in the \<^verbatim>\<open>vocabulary_size\<close> distribution (line 143).\<close>

definition vocabulary_size :: "(int \<times> string) list \<Rightarrow> nat" where
  "vocabulary_size counts_iter = length (sorted_counts counts_iter)"

definition order_by_decreasing_counts :: "(int \<times> string) list \<Rightarrow> bool \<Rightarrow> string list" where
  "order_by_decreasing_counts counts_iter store_freq =
     (let counts = sorted_counts counts_iter
      in if store_freq
         then map (\<lambda>(count, element). str_int count @ '' '' @ element) counts
         else map (\<lambda>(_, element). element) counts)"

definition UniquesAnalyzerImpl_expand ::
  "UniquesSpec \<Rightarrow> string \<Rightarrow> string ndarray list list \<Rightarrow> error + 'r run" where
  "UniquesAnalyzerImpl_expand spec temp_assets_dir pcoll =
     (if \<not> (top_k spec = None \<or> the (top_k spec) \<ge> 0) then Inl AssertionError
      else if \<not> (frequency_threshold spec = None \<or> the (frequency_threshold spec) \<ge> 0)
      then Inl AssertionError
      else case Map_beam flatten_value_to_list pcoll of
        Inl e \<Rightarrow> Inl e
      | Inr lsts \<Rightarrow>
          (let counts = surviving_counts spec lsts;
               vocabulary_file = os_path_join temp_assets_dir (vocab_filename spec);
               vocab_is_written =
                 [(vocabulary_file, order_by_decreasing_counts counts (store_frequency spec))]
           in Inr \<lparr>written = vocab_is_written, returned = [VocabularyPath vocabulary_file]\<rparr>))"

subsection \<open>The combiner analyzer\<close>

text \<open>
  A combiner spec supplies the four functions of a \<^verbatim>\<open>CombineFn\<close>.  The flag records
  whether the spec is an instance of \<^verbatim>\<open>_QuantilesCombinerSpec\<close>, the only test
  the implementation makes.
\<close>

record ('acc, 'b, 'r) CombinerSpec =
  create_accumulator :: 'acc
  add_input :: "'acc \<Rightarrow> 'b \<Rightarrow> 'acc"
  merge_accumulators :: "'acc list \<Rightarrow> 'acc"
  extract_output :: "'acc \<Rightarrow> 'r"
  is_QuantilesCombinerSpec :: bool

text \<open>
  \<^verbatim>\<open>beam.CombineGlobally(fn)\<close> emits one value, the output extracted from the
  accumulator of all inputs.  On an empty collection it emits the output of the empty
  accumulator when defaults are on, and nothing after \<^verbatim>\<open>without_defaults()\<close>.
  On a non-empty collection the accumulators that received the inputs are merged before
  the output is extracted.  Beam may spread the inputs over several accumulators and
  merge them in any grouping; the model adds every input to one accumulator and merges
  that one, which is one of these executions.  The default for an empty collection is
  \<^verbatim>\<open>CombineFn.apply([])\<close>, which extracts the output of a fresh accumulator
  without merging.
  \<^verbatim>\<open>_CombineFnWrapper\<close> forwards the four functions of the spec unchanged, and
  the local state it initialises for a quantiles spec does not enter the result.
\<close>

definition CombineGlobally ::
  "bool \<Rightarrow> ('acc, 'b, 'r) CombinerSpec \<Rightarrow> 'b list \<Rightarrow> 'r list" where
  "CombineGlobally has_defaults fn pcoll =
     (if pcoll = [] then
        (if has_defaults then [extract_output fn (create_accumulator fn)] else [])
      else [extract_output fn
              (merge_accumulators fn
                 [fold (\<lambda>x acc. add_input fn acc x) pcoll (create_accumulator fn)])])"

definition CombinerAnalyzerImpl_expand ::
  "('acc, 'b, 'r) CombinerSpec \<Rightarrow> 'b list \<Rightarrow> error + 'r run" where
  "CombinerAnalyzerImpl_expand spec pcoll =
     (let has_defaults = True;
          has_defaults = (if \<not> is_QuantilesCombinerSpec spec then False else has_defaults)
      in Inr \<lparr>written = [], returned = map Combined (CombineGlobally has_defaults spec pcoll)\<rparr>)"

text \<open>An example of a combiner spec: the running sum of the elements of all batches.\<close>

definition running_sum_spec :: "(int, int list, int) CombinerSpec" where
  "running_sum_spec =
     \<lparr>create_accumulator = 0,
      add_input = (\<lambda>acc batch. acc + sum_list batch),
      merge_accumulators = sum_list,
      extract_output = (\<lambda>acc. acc),
      is_QuantilesCombinerSpec = False\<rparr>"

subsection \<open>The dispatcher\<close>

text \<open>
  Python passes any object as a spec; \<open>OtherSpec\<close> stands for an object of neither class.
\<close>

datatype ('acc, 'b, 'r) AnalyzerSpec =
    IsUniquesSpec UniquesSpec
  | IsCombinerSpec "('acc, 'b, 'r) CombinerSpec"
  | OtherSpec

fun AnalyzerImpl_expand ::
  "('acc, string ndarray list, 'r) AnalyzerSpec \<Rightarrow> string \<Rightarrow> string ndarray list list
   \<Rightarrow> error + 'r run" where
  "AnalyzerImpl_expand (IsUniquesSpec spec) temp_assets_dir pcoll =
     UniquesAnalyzerImpl_expand spec temp_assets_dir pcoll"
| "AnalyzerImpl_expand (IsCombinerSpec spec) temp_assets_dir pcoll =
     CombinerAnalyzerImpl_expand spec pcoll"
| "AnalyzerImpl_expand OtherSpec temp_assets_dir pcoll = Inl NotImplementedError"

subsection \<open>Auxiliary notions\<close>

text \<open>The sum of the values that a collection of pairs holds for one key.\<close>

definition total :: "'k \<Rightarrow> ('k \<times> int) list \<Rightarrow> int" where
  "total k kvs = sum_list (map snd (filter (\<lambda>kv. fst kv = k) kvs))"

text \<open>The number that a string of decimal digits denotes.\<close>

definition digit_value :: "char \<Rightarrow> nat" where
  "digit_value c = of_char c - 48"

definition decimal_value :: "string \<Rightarrow> nat" where
  "decimal_value s = foldl (\<lambda>acc c. 10 * acc + digit_value c) 0 s"

section \<open>Properties\<close>

subsection \<open>Flattening\<close>

lemma concat_nth_uniform:
  "\<lbrakk>\<forall>l \<in> set ls. length l = p; i < length ls; j < p\<rbrakk>
   \<Longrightarrow> concat ls ! (i * p + j) = ls ! i ! j"
proof (induction ls arbitrary: i)
  case Nil
  then show ?case by simp
next
  case (Cons l ls)
  show ?case
  proof (cases i)
    case 0
    with Cons.prems show ?thesis by (simp add: nth_append)
  next
    case (Suc k)
    have "concat ls ! (k * p + j) = ls ! k ! j"
      using Cons.IH [of k] Cons.prems Suc by simp
    moreover have "length l = p" using Cons.prems by simp
    ultimately show ?thesis using Suc by (simp add: nth_append)
  qed
qed

lemma length_concat_uniform:
  "\<forall>l \<in> set ls. length l = p \<Longrightarrow> length (concat ls) = length ls * p"
  by (induction ls) auto

lemma length_ravel: "has_shape sh a \<Longrightarrow> length (ravel a) = prod_list sh"
proof (induction a arbitrary: sh)
  case (Scalar x)
  then show ?case by (cases sh) auto
next
  case (Axis xs)
  then obtain n ns where sh: "sh = n # ns" by (cases sh) auto
  with Axis.prems have len: "length xs = n" and all: "\<forall>x \<in> set xs. has_shape ns x"
    by (auto simp: list_all_iff)
  have "\<forall>l \<in> set (map ravel xs). length l = prod_list ns"
    using Axis.IH all by auto
  from length_concat_uniform [OF this] show ?case using sh len by simp
qed

lemma ravel_row_major:
  "\<lbrakk>has_shape sh a; item a idx = Some v\<rbrakk>
   \<Longrightarrow> row_major_offset sh idx < length (ravel a) \<and> ravel a ! row_major_offset sh idx = v"
proof (induction a arbitrary: sh idx)
  case (Scalar x)
  then show ?case by (cases sh; cases idx) auto
next
  case (Axis xs)
  from Axis.prems obtain n ns where sh: "sh = n # ns" by (cases sh) auto
  from Axis.prems obtain i rest where idx: "idx = i # rest" by (cases idx) auto
  from Axis.prems sh have len: "length xs = n" and all: "\<forall>x \<in> set xs. has_shape ns x"
    by (auto simp: list_all_iff)
  from Axis.prems idx have i: "i < length xs" and it: "item (xs ! i) rest = Some v"
    by (auto split: if_splits)
  have mem: "xs ! i \<in> set xs" using i by simp
  have sub: "row_major_offset ns rest < length (ravel (xs ! i))
      \<and> ravel (xs ! i) ! row_major_offset ns rest = v"
    using Axis.IH [OF mem _ it] all mem by blast
  have uni: "\<forall>l \<in> set (map ravel xs). length l = prod_list ns"
    using all length_ravel by auto
  have lt: "row_major_offset ns rest < prod_list ns"
    using sub length_ravel all mem by metis
  have nth: "concat (map ravel xs) ! (i * prod_list ns + row_major_offset ns rest)
      = map ravel xs ! i ! row_major_offset ns rest"
    using concat_nth_uniform [OF uni _ lt, of i] i by simp
  have "i * prod_list ns + row_major_offset ns rest < length xs * prod_list ns"
  proof -
    have "i * prod_list ns + row_major_offset ns rest < i * prod_list ns + prod_list ns"
      using lt by simp
    also have "\<dots> = Suc i * prod_list ns" by simp
    also have "\<dots> \<le> length xs * prod_list ns"
      using i by (intro mult_le_mono1) simp
    finally show ?thesis .
  qed
  moreover have "length (concat (map ravel xs)) = length xs * prod_list ns"
    using length_concat_uniform [OF uni] by simp
  ultimately show ?case using nth sub i sh idx by simp
qed

text \<open>
  C10.  A batch holding exactly one array is flattened to that array's elements in
  row-major order: the element at a multi-index is found at the row-major offset of the
  index.  A batch holding no array, or more than one, raises \<^verbatim>\<open>ValueError\<close>.
\<close>

theorem flatten_value_to_list_one_array:
  "flatten_value_to_list [a] = Inr (ravel a)
   \<and> (has_shape sh a \<and> item a idx = Some v \<longrightarrow>
        row_major_offset sh idx < length (ravel a) \<and> ravel a ! row_major_offset sh idx = v)
   \<and> (length batch_values \<noteq> 1 \<longrightarrow> flatten_value_to_list batch_values = Inl ValueError)"
proof -
  have "length batch_values \<noteq> 1 \<Longrightarrow> flatten_value_to_list batch_values = Inl ValueError"
    by (cases batch_values rule: flatten_value_to_list.cases) auto
  then show ?thesis using ravel_row_major [of sh a idx v] by simp
qed

theorem flatten_value_to_list_one_array_witness:
  "flatten_value_to_list [Axis [Axis [Scalar (1::int), Scalar 2], Axis [Scalar 3, Scalar 4]]]
     = Inr [1, 2, 3, 4]
   \<and> has_shape [2, 2] (Axis [Axis [Scalar (1::int), Scalar 2], Axis [Scalar 3, Scalar 4]])
   \<and> item (Axis [Axis [Scalar (1::int), Scalar 2], Axis [Scalar 3, Scalar 4]]) [1, 0] = Some 3
   \<and> row_major_offset [2, 2] [1, 0] = 2
   \<and> ravel (Axis [Axis [Scalar (1::int), Scalar 2], Axis [Scalar 3, Scalar 4]])
       ! row_major_offset [2, 2] [1, 0] = 3
   \<and> length ([] :: int ndarray list) \<noteq> 1
   \<and> flatten_value_to_list ([] :: int ndarray list) = Inl ValueError"
  using flatten_value_to_list_one_array
    [of "Axis [Axis [Scalar (1::int), Scalar 2], Axis [Scalar 3, Scalar 4]]"
        "[2, 2]" "[1, 0]" 3 "[]"]
  by simp

subsection \<open>Counting\<close>

lemma total_append: "total k (a @ b) = total k a + total k b"
  by (simp add: total_def)

lemma total_Counter_incr: "total k (Counter_incr x m) = total k m + (if x = k then 1 else 0)"
  by (induction x m rule: Counter_incr.induct) (auto simp: total_def)

lemma total_fold_Counter_incr:
  "total k (fold Counter_incr lst m) = total k m + int (count_list lst k)"
  by (induction lst arbitrary: m) (auto simp: total_Counter_incr)

lemma total_Nil: "total k [] = 0"
  by (simp add: total_def)

lemma total_Counter: "total k (Counter lst) = int (count_list lst k)"
  by (simp add: Counter_def total_fold_Counter_incr total_Nil)

lemma keys_Counter_incr: "fst ` set (Counter_incr x m) = insert x (fst ` set m)"
  by (induction x m rule: Counter_incr.induct) auto

lemma keys_fold_Counter_incr: "fst ` set (fold Counter_incr lst m) = set lst \<union> fst ` set m"
  by (induction lst arbitrary: m) (auto simp: keys_Counter_incr)

lemma keys_Counter: "fst ` set (Counter lst) = set lst"
  by (simp add: Counter_def keys_fold_Counter_incr)

lemma total_FlatMap_Counter:
  "total k (FlatMap Counter lsts) = int (count_list (concat lsts) k)"
  by (induction lsts) (simp_all add: FlatMap_def total_append total_Counter total_Nil)

lemma keys_FlatMap_Counter: "fst ` set (FlatMap Counter lsts) = set (concat lsts)"
  by (induction lsts) (auto simp: FlatMap_def keys_Counter image_Un)

lemma CountGlobally_eq:
  "CountGlobally lsts =
     map (\<lambda>k. (k, int (count_list (concat lsts) k))) (remdups (map fst (FlatMap Counter lsts)))"
  using total_FlatMap_Counter [of _ lsts]
  by (simp add: CountGlobally_def CombinePerKey_def GroupByKey_def total_def comp_def)

lemma keys_CountGlobally: "map fst (CountGlobally lsts) = remdups (map fst (FlatMap Counter lsts))"
  by (simp add: CountGlobally_eq comp_def)

lemma distinct_keys_CountGlobally: "distinct (map fst (CountGlobally lsts))"
  by (simp add: keys_CountGlobally)

lemma set_keys_CountGlobally: "fst ` set (CountGlobally lsts) = set (concat lsts)"
  using keys_CountGlobally [of lsts] keys_FlatMap_Counter [of lsts]
  by (metis set_map set_remdups)

lemma set_CountGlobally:
  "set (CountGlobally lsts) = (\<lambda>k. (k, int (count_list (concat lsts) k))) ` set (concat lsts)"
  using keys_FlatMap_Counter [of lsts] by (simp add: CountGlobally_eq)

lemma map_of_CountGlobally:
  "map_of (CountGlobally lsts) e =
     (if e \<in> set (concat lsts) then Some (int (count_list (concat lsts) e)) else None)"
proof (cases "e \<in> set (concat lsts)")
  case True
  then have "(e, int (count_list (concat lsts) e)) \<in> set (CountGlobally lsts)"
    by (auto simp: set_CountGlobally)
  then show ?thesis using True distinct_keys_CountGlobally [of lsts] by simp
next
  case False
  then have "e \<notin> fst ` set (CountGlobally lsts)" by (simp add: set_keys_CountGlobally)
  then show ?thesis using False by (simp add: map_of_eq_None_iff)
qed

lemma sum_CountGlobally: "sum_list (map snd (CountGlobally lsts)) = int (length (concat lsts))"
proof -
  let ?ks = "remdups (map fst (FlatMap Counter lsts))"
  have ks: "set ?ks = set (concat lsts)" using keys_FlatMap_Counter [of lsts] by simp
  have "sum_list (map snd (CountGlobally lsts))
      = sum_list (map (\<lambda>k. int (count_list (concat lsts) k)) ?ks)"
    by (simp add: CountGlobally_eq comp_def)
  also have "\<dots> = (\<Sum>k \<in> set ?ks. int (count_list (concat lsts) k))"
    by (rule sum_list_distinct_conv_sum_set) simp
  also have "\<dots> = (\<Sum>k \<in> set (concat lsts). int (count_list (concat lsts) k))"
    by (simp only: ks)
  also have "\<dots> = int (\<Sum>k \<in> set (concat lsts). count_list (concat lsts) k)"
    by (simp only: of_nat_sum)
  also have "\<dots> = int (length (concat lsts))"
    by (simp add: sum_count_set)
  finally show ?thesis .
qed

lemma mset_CountGlobally:
  "mset (CountGlobally lsts) =
     image_mset (\<lambda>k. (k, int (count (mset (concat lsts)) k))) (mset_set (set (concat lsts)))"
proof -
  let ?ks = "remdups (map fst (FlatMap Counter lsts))"
  let ?f = "\<lambda>k. (k, int (count_list (concat lsts) k))"
  have ks: "set ?ks = set (concat lsts)" using keys_FlatMap_Counter [of lsts] by simp
  have "mset ?ks = mset_set (set ?ks)" by (metis mset_set_set distinct_remdups)
  then have ms: "mset ?ks = mset_set (set (concat lsts))" by (simp only: ks)
  have "mset (CountGlobally lsts) = image_mset ?f (mset ?ks)"
    by (simp only: CountGlobally_eq mset_map)
  also have "\<dots> = image_mset ?f (mset_set (set (concat lsts)))"
    by (simp only: ms)
  finally show ?thesis by (simp only: count_mset)
qed

lemma CountGlobally_perm:
  assumes "mset (concat lsts') = mset (concat lsts)"
  shows "mset (CountGlobally lsts') = mset (CountGlobally lsts)"
    and "map_of (CountGlobally lsts') = map_of (CountGlobally lsts)"
proof -
  have s: "set (concat lsts') = set (concat lsts)" using assms by (rule mset_eq_setD)
  show "mset (CountGlobally lsts') = mset (CountGlobally lsts)"
    by (simp only: mset_CountGlobally assms s)
  have c: "count_list (concat lsts') e = count_list (concat lsts) e" for e
    using assms by (metis count_mset)
  show "map_of (CountGlobally lsts') = map_of (CountGlobally lsts)"
    by (rule ext) (simp only: map_of_CountGlobally s c)
qed

lemma mset_concat_perm:
  "mset (map mset lsts') = mset (map mset lsts) \<Longrightarrow> mset (concat lsts') = mset (concat lsts)"
  by (metis mset_concat sum_mset_sum_list mset_map  image_mset.compositionality)

text \<open>
  C1.  The table of counts before any filter has one entry per distinct element, maps
  every element to the number of its occurrences in all flattened batches, and its counts
  add up to the number of elements observed.  Permuting the batches, and the elements
  within each batch, leaves the table unchanged.
\<close>

theorem CountGlobally_exact:
  "distinct (map fst (CountGlobally lsts))
   \<and> map_of (CountGlobally lsts) e =
       (if e \<in> set (concat lsts) then Some (int (count_list (concat lsts) e)) else None)
   \<and> sum_list (map snd (CountGlobally lsts)) = int (length (concat lsts))
   \<and> (mset (map mset lsts') = mset (map mset lsts) \<longrightarrow>
        mset (CountGlobally lsts') = mset (CountGlobally lsts)
        \<and> map_of (CountGlobally lsts') = map_of (CountGlobally lsts))"
  using distinct_keys_CountGlobally [of lsts] map_of_CountGlobally [of lsts e]
    sum_CountGlobally [of lsts] CountGlobally_perm [OF mset_concat_perm, of lsts' lsts]
  by blast

theorem CountGlobally_exact_witness:
  "mset (map mset [[''a'', ''b'', ''c''], [''b'', ''a'', ''a'']])
     = mset (map mset [[''a'', ''b'', ''a''], [''c'', ''b'', ''a'']])
   \<and> map_of (CountGlobally [[''a'', ''b'', ''a''], [''c'', ''b'', ''a'']]) ''a'' = Some 3
   \<and> sum_list (map snd (CountGlobally [[''a'', ''b'', ''a''], [''c'', ''b'', ''a'']])) = 6
   \<and> mset (CountGlobally [[''a'', ''b'', ''c''], [''b'', ''a'', ''a'']])
       = mset (CountGlobally [[''a'', ''b'', ''a''], [''c'', ''b'', ''a'']])"
proof -
  have a: "mset [''a'', ''b'', ''c''] = mset [''c'', ''b'', ''a'']" by simp
  have b: "mset [''b'', ''a'', ''a''] = mset [''a'', ''b'', ''a'']" by simp
  have p: "mset (map mset [[''a'', ''b'', ''c''], [''b'', ''a'', ''a'']])
      = mset (map mset [[''a'', ''b'', ''a''], [''c'', ''b'', ''a'']])"
    using a b by (simp add: add_mset_commute)
  show ?thesis
    using CountGlobally_exact [of "[[''a'', ''b'', ''a''], [''c'', ''b'', ''a'']]" "''a''"
        "[[''a'', ''b'', ''c''], [''b'', ''a'', ''a'']]"] p
    by simp
qed

subsection \<open>Filtering, selection and ordering\<close>

lemma mset_sorted_counts:
  "mset (sorted_counts xs) = mset (if xs = [] then [sentinel] else xs)"
  by (simp add: sorted_counts_def)

lemma set_sorted_counts:
  "set (sorted_counts xs) = (if xs = [] then {sentinel} else set xs)"
  by (simp add: sorted_counts_def)

lemma length_sorted_counts:
  "length (sorted_counts xs) = (if xs = [] then 1 else length xs)"
  by (simp add: sorted_counts_def)

lemma sorted_counts_Nil: "sorted_counts [] = [sentinel]"
  by (simp add: sorted_counts_def)

lemma sorted_counts_nonempty: "xs \<noteq> [] \<Longrightarrow> sorted_counts xs = rev (sort xs)"
  by (simp add: sorted_counts_def)

lemma sort_mset_cong: "mset xs = mset ys \<Longrightarrow> sort xs = sort ys"
  by (metis properties_for_sort mset_sort sorted_sort)

lemma sorted_counts_perm:
  assumes "mset xs = mset ys"
  shows "sorted_counts xs = sorted_counts ys"
proof -
  have "xs = [] \<longleftrightarrow> ys = []" using assms by (metis mset_zero_iff)
  then show ?thesis using sort_mset_cong [OF assms] by (auto simp: sorted_counts_def)
qed

lemma sorted_rev_sorted_counts: "sorted (rev (sorted_counts xs))"
  by (simp add: sorted_counts_def)

lemma resort_sorted_counts: "rev (sort (sorted_counts xs)) = sorted_counts xs"
proof -
  have "sort (rev (sort ys)) = sort ys" for ys :: "(int \<times> string) list"
    by (rule sort_mset_cong) simp
  then show ?thesis by (simp add: sorted_counts_def)
qed

lemma sorted_counts_idem: "sorted_counts (sorted_counts xs) = sorted_counts xs"
proof -
  have "sorted_counts xs \<noteq> []" using length_sorted_counts [of xs] by (auto split: if_splits)
  then show ?thesis by (simp add: sorted_counts_nonempty resort_sorted_counts)
qed

lemma entry_less_iff:
  "(b :: int \<times> string) < a \<longleftrightarrow> fst b < fst a \<or> (fst a = fst b \<and> snd b < snd a)"
  by (cases a; cases b) auto

lemma strictly_decreasing_sorted_counts:
  assumes "distinct xs"
  shows "sorted_wrt (\<lambda>a b. fst b < fst a \<or> (fst a = fst b \<and> snd b < snd a)) (sorted_counts xs)"
proof -
  have d: "distinct (rev (sorted_counts xs))"
    using assms by (simp add: sorted_counts_def)
  have "sorted_wrt (<) (rev (sorted_counts xs))"
    using d sorted_rev_sorted_counts [of xs] by (simp only: strict_sorted_iff)
  then have "sorted_wrt (\<lambda>a b. b < a) (sorted_counts xs)"
    by (simp add: sorted_wrt_rev)
  then show ?thesis by (simp only: entry_less_iff)
qed

lemma keys_KvSwap: "map snd (KvSwap kvs) = map fst kvs"
  by (simp add: KvSwap_def case_prod_beta comp_def)

lemma set_KvSwap: "(c, e) \<in> set (KvSwap kvs) \<longleftrightarrow> (e, c) \<in> set kvs"
  by (auto simp: KvSwap_def)

lemma distinct_elements_filtered_counts: "distinct (map snd (filtered_counts spec lsts))"
proof -
  have "distinct (map fst (FilterProblematicStrings (CountGlobally lsts)))"
    unfolding FilterProblematicStrings_def Filter_beam_def
    by (rule distinct_map_filter) (rule distinct_keys_CountGlobally)
  then have "distinct (map snd (KvSwap (FilterProblematicStrings (CountGlobally lsts))))"
    by (simp only: keys_KvSwap)
  then show ?thesis
    by (auto simp: filtered_counts_def FilterByFrequencyThreshold_def Filter_beam_def
        Let_def distinct_map_filter split: option.splits)
qed

lemma Top_Some: "Top (Some k) counts = take (nat k) (rev (sort counts))"
  by (simp add: Top_def Top_Largest_def FlatMap_def)

lemma Top_None: "Top None counts = counts"
  by (simp add: Top_def)

lemma distinct_map_mset_cong:
  "mset xs = mset ys \<Longrightarrow> distinct (map f xs) \<longleftrightarrow> distinct (map f ys)"
  by (metis mset_map mset_eq_imp_distinct_iff)

lemma distinct_elements_Top:
  assumes "distinct (map snd counts)"
  shows "distinct (map snd (Top limit counts))"
proof (cases limit)
  case None
  then show ?thesis using assms by (simp add: Top_None)
next
  case (Some k)
  have "distinct (map snd (sort counts))"
    using assms distinct_map_mset_cong [of "sort counts" counts snd] by simp
  then have "distinct (map snd (rev (sort counts)))"
    by (simp add: rev_map [symmetric] del: rev_map)
  then have "distinct (take (nat k) (map snd (rev (sort counts))))"
    by (rule distinct_take)
  then show ?thesis using Some by (simp only: Top_Some take_map)
qed

lemma distinct_elements_surviving_counts: "distinct (map snd (surviving_counts spec lsts))"
  using distinct_elements_Top [OF distinct_elements_filtered_counts]
  by (simp add: surviving_counts_def Reshuffle_def)

lemma distinct_surviving_counts: "distinct (surviving_counts spec lsts)"
  using distinct_elements_surviving_counts [of spec lsts] by (simp add: distinct_map)

lemma set_Top_subset: "set (Top limit counts) \<subseteq> set counts"
proof (cases limit)
  case None
  then show ?thesis by (simp add: Top_None)
next
  case (Some k)
  have "set (take (nat k) (rev (sort counts))) \<subseteq> set (rev (sort counts))"
    by (rule set_take_subset)
  then show ?thesis using Some by (simp add: Top_Some)
qed

lemma set_surviving_subset: "set (surviving_counts spec lsts) \<subseteq> set (filtered_counts spec lsts)"
  using set_Top_subset by (simp add: surviving_counts_def Reshuffle_def)

lemma sorted_counts_fixed:
  assumes "sorted (rev ys)" and "ys \<noteq> []"
  shows "sorted_counts ys = ys"
proof -
  have "sort ys = rev ys"
    by (rule properties_for_sort) (simp_all add: assms)
  then show ?thesis using assms by (simp add: sorted_counts_nonempty)
qed

lemma sorted_rev_take_rev_sort: "sorted (rev (take n (rev (sort xs))))"
proof -
  have "sorted_wrt (\<lambda>a b. b \<le> a) (rev (sort xs))"
    by (simp add: sorted_wrt_rev)
  then have "sorted_wrt (\<lambda>a b. b \<le> a) (take n (rev (sort xs)))"
    by (rule sorted_wrt_take)
  then show ?thesis by (simp add: sorted_wrt_rev)
qed

lemma take_rev_sort_greatest:
  fixes xs :: "'a::linorder list"
  assumes "a \<in> set (take n (rev (sort xs)))" and "b \<in> set xs"
    and "b \<notin> set (take n (rev (sort xs)))"
  shows "b < a"
proof -
  let ?ys = "rev (sort xs)"
  have split: "?ys = take n ?ys @ drop n ?ys" by simp
  have "b \<in> set ?ys" using assms(2) by simp
  then have "b \<in> set (take n ?ys) \<union> set (drop n ?ys)"
    by (metis split set_append)
  then have b: "b \<in> set (drop n ?ys)" using assms(3) by blast
  have "sorted_wrt (\<lambda>a b. b \<le> a) (take n ?ys @ drop n ?ys)"
    by (simp add: sorted_wrt_rev)
  then have "b \<le> a" using assms(1) b by (auto simp only: sorted_wrt_append)
  moreover have "a \<noteq> b" using assms(1,3) by blast
  ultimately show ?thesis by simp
qed

lemma take_rev_sort_short:
  assumes "b \<in> set xs" and "b \<notin> set (take n (rev (sort xs)))"
  shows "length (take n (rev (sort xs))) = n"
proof (rule ccontr)
  assume "length (take n (rev (sort xs))) \<noteq> n"
  then have "length xs \<le> n" by (simp add: min_def split: if_splits)
  then have "take n (rev (sort xs)) = rev (sort xs)" by simp
  then show False using assms by simp
qed

lemma surviving_counts_Some:
  "top_k spec = Some k \<Longrightarrow>
   surviving_counts spec lsts = take (nat k) (rev (sort (filtered_counts spec lsts)))"
  by (simp add: surviving_counts_def Reshuffle_def Top_Some)

lemma surviving_counts_None:
  "top_k spec = None \<Longrightarrow> surviving_counts spec lsts = filtered_counts spec lsts"
  by (simp add: surviving_counts_def Reshuffle_def Top_None)

lemma set_filtered_counts:
  "(c, e) \<in> set (filtered_counts spec lsts) \<longleftrightarrow>
     (e, c) \<in> set (FilterProblematicStrings (CountGlobally lsts))
     \<and> (\<forall>t. frequency_threshold spec = Some t \<longrightarrow> t \<le> c)"
  by (auto simp: filtered_counts_def FilterByFrequencyThreshold_def Filter_beam_def Let_def
      set_KvSwap split: option.splits)

lemma set_FilterProblematicStrings:
  "kv \<in> set (FilterProblematicStrings counts) \<longleftrightarrow>
     kv \<in> set counts \<and> fst kv \<noteq> [] \<and> CHR 0x0A \<notin> set (fst kv) \<and> CHR 0x0D \<notin> set (fst kv)"
  by (auto simp: FilterProblematicStrings_def Filter_beam_def)

lemma sentinel_clean:
  "snd sentinel \<noteq> [] \<and> CHR 0x0A \<notin> set (snd sentinel) \<and> CHR 0x0D \<notin> set (snd sentinel)"
  by (simp add: sentinel_def)

lemma Map_beam_never_NotImplemented:
  "Map_beam flatten_value_to_list pcoll \<noteq> Inl NotImplementedError"
proof (induction pcoll)
  case Nil
  then show ?case by simp
next
  case (Cons b pcoll)
  have "flatten_value_to_list b \<noteq> Inl NotImplementedError"
    by (cases b rule: flatten_value_to_list.cases) auto
  with Cons show ?case by (auto split: sum.splits)
qed

lemma UniquesAnalyzerImpl_expand_ok:
  assumes "top_k spec = None \<or> 0 \<le> the (top_k spec)"
    and "frequency_threshold spec = None \<or> 0 \<le> the (frequency_threshold spec)"
    and "Map_beam flatten_value_to_list pcoll = Inr lsts"
  shows "UniquesAnalyzerImpl_expand spec dir pcoll =
     Inr \<lparr>written = [(os_path_join dir (vocab_filename spec),
                       order_by_decreasing_counts (surviving_counts spec lsts) (store_frequency spec))],
          returned = [VocabularyPath (os_path_join dir (vocab_filename spec))]\<rparr>"
  using assms by (simp add: UniquesAnalyzerImpl_expand_def Let_def)

lemma UniquesAnalyzerImpl_expand_written:
  assumes "UniquesAnalyzerImpl_expand spec dir pcoll = Inr r"
  shows "\<exists>lsts. Map_beam flatten_value_to_list pcoll = Inr lsts \<and>
     written r = [(os_path_join dir (vocab_filename spec),
                   order_by_decreasing_counts (surviving_counts spec lsts) (store_frequency spec))]"
  using assms
  by (auto simp: UniquesAnalyzerImpl_expand_def Let_def split: if_splits sum.splits)

lemma order_by_decreasing_counts_lines:
  "order_by_decreasing_counts counts sf =
     map (\<lambda>(count, element). if sf then str_int count @ '' '' @ element else element)
       (sorted_counts counts)"
  by (cases sf) (simp_all add: order_by_decreasing_counts_def Let_def case_prod_beta)

lemma order_by_decreasing_counts_nonempty: "order_by_decreasing_counts counts sf \<noteq> []"
  using length_sorted_counts [of counts]
  by (auto simp: order_by_decreasing_counts_lines split: if_splits)

subsection \<open>Decimal formatting\<close>

lemma digit_char_cases:
  assumes "d < 10"
  shows "digit_char d \<in> set ''0123456789'' \<and> digit_value (digit_char d) = d"
proof -
  have "d \<in> {0, 1, 2, 3, 4, 5, 6, 7, 8, 9}" using assms by auto
  then show ?thesis
    by (auto simp: digit_char_def digit_value_def)
qed

lemma decimal_value_snoc:
  "decimal_value (s @ [c]) = 10 * decimal_value s + digit_value c"
  by (simp add: decimal_value_def)

lemma decimal_value_str_nat: "decimal_value (str_nat n) = n"
proof (induction n rule: str_nat.induct)
  case (1 n)
  show ?case
  proof (cases "n < 10")
    case True
    then show ?thesis
      using digit_char_cases [of n]
      by (subst str_nat.simps) (simp add: decimal_value_def)
  next
    case False
    have "decimal_value (str_nat n)
        = 10 * decimal_value (str_nat (n div 10)) + digit_value (digit_char (n mod 10))"
      using False by (subst str_nat.simps) (simp add: decimal_value_snoc)
    also have "\<dots> = 10 * (n div 10) + n mod 10"
      using "1.IH" [OF False] digit_char_cases [of "n mod 10"] by simp
    finally show ?thesis by simp
  qed
qed

lemma str_nat_digits: "set (str_nat n) \<subseteq> set ''0123456789''"
proof (induction n rule: str_nat.induct)
  case (1 n)
  show ?case
  proof (cases "n < 10")
    case True
    then show ?thesis
      using digit_char_cases [of n] by (subst str_nat.simps) simp
  next
    case False
    have "digit_char (n mod 10) \<in> set ''0123456789''"
      using digit_char_cases [of "n mod 10"] by simp
    then show ?thesis
      using "1.IH" [OF False] False by (subst str_nat.simps) simp
  qed
qed

lemma str_int_nonneg: "0 \<le> i \<Longrightarrow> decimal_value (str_int i) = nat i"
  by (simp add: str_int_def decimal_value_str_nat)

subsection \<open>Independence of the order of the input\<close>

lemma mset_FilterProblematicStrings:
  "mset xs = mset ys \<Longrightarrow> mset (FilterProblematicStrings xs) = mset (FilterProblematicStrings ys)"
  by (simp add: FilterProblematicStrings_def Filter_beam_def)

lemma mset_KvSwap: "mset xs = mset ys \<Longrightarrow> mset (KvSwap xs) = mset (KvSwap ys)"
  unfolding KvSwap_def by (metis mset_map)

lemma mset_FilterByFrequencyThreshold:
  "mset xs = mset ys \<Longrightarrow>
   mset (FilterByFrequencyThreshold t xs) = mset (FilterByFrequencyThreshold t ys)"
  by (cases t) (simp_all add: FilterByFrequencyThreshold_def Filter_beam_def)

lemma mset_Top: "mset xs = mset ys \<Longrightarrow> mset (Top limit xs) = mset (Top limit ys)"
  using sort_mset_cong [of xs ys] by (cases limit) (simp_all add: Top_None Top_Some)

lemma surviving_counts_perm:
  assumes "mset (map mset lsts') = mset (map mset lsts)"
  shows "mset (surviving_counts spec lsts') = mset (surviving_counts spec lsts)"
proof -
  have "mset (CountGlobally lsts') = mset (CountGlobally lsts)"
    using CountGlobally_perm(1) [OF mset_concat_perm [OF assms]] .
  then have "mset (filtered_counts spec lsts') = mset (filtered_counts spec lsts)"
    unfolding filtered_counts_def Let_def
    by (intro mset_FilterByFrequencyThreshold mset_KvSwap mset_FilterProblematicStrings)
  then show ?thesis
    unfolding surviving_counts_def Let_def Reshuffle_def by (rule mset_Top)
qed

lemma vocabulary_perm:
  assumes "mset (map mset lsts') = mset (map mset lsts)"
  shows "order_by_decreasing_counts (surviving_counts spec lsts') sf
       = order_by_decreasing_counts (surviving_counts spec lsts) sf"
  using sorted_counts_perm [OF surviving_counts_perm [OF assms]]
  by (simp only: order_by_decreasing_counts_lines)

lemma positive_counts:
  assumes "a \<in> set (sorted_counts (surviving_counts spec lsts))"
  shows "1 \<le> fst a"
proof (cases "surviving_counts spec lsts = []")
  case True
  then have "a = sentinel" using assms by (simp add: set_sorted_counts)
  then show ?thesis by (simp add: sentinel_def)
next
  case False
  then have "a \<in> set (surviving_counts spec lsts)" using assms by (simp add: set_sorted_counts)
  then have "(fst a, snd a) \<in> set (filtered_counts spec lsts)"
    using set_surviving_subset [of spec lsts] by auto
  then have "(snd a, fst a) \<in> set (FilterProblematicStrings (CountGlobally lsts))"
    by (simp only: set_filtered_counts)
  then have "(snd a, fst a) \<in> set (CountGlobally lsts)"
    by (simp only: set_FilterProblematicStrings)
  then have "snd a \<in> set (concat lsts)" and "fst a = int (count_list (concat lsts) (snd a))"
    by (auto simp: set_CountGlobally)
  then show ?thesis using count_list_0_iff [of "concat lsts" "snd a"] by simp
qed

subsection \<open>The emitted vocabulary\<close>

text \<open>
  C2, as stated, fails: on an empty input no entry survives, yet one line is written,
  the sentinel, so the lines written are not the surviving entries.
\<close>

theorem emitted_not_surviving_counterexample:
  "surviving_counts
      \<lparr>top_k = None, frequency_threshold = None, store_frequency = False,
       vocab_filename = ''vocab''\<rparr> [] = []
   \<and> order_by_decreasing_counts
        (surviving_counts
           \<lparr>top_k = None, frequency_threshold = None, store_frequency = False,
            vocab_filename = ''vocab''\<rparr> []) False
       = [''49d0cd50-04bb-48c0-bc6f-5b575dce351a'']
   \<and> order_by_decreasing_counts
        (surviving_counts
           \<lparr>top_k = None, frequency_threshold = None, store_frequency = False,
            vocab_filename = ''vocab''\<rparr> []) False
       \<noteq> map snd (rev (sort (surviving_counts
           \<lparr>top_k = None, frequency_threshold = None, store_frequency = False,
            vocab_filename = ''vocab''\<rparr> [])))"
  by code_simp

text \<open>
  C2, amended.  The entries written are the entries that survive the filters and the
  selection, or the sentinel alone when none survives, in strictly decreasing order of
  count and,
  for equal counts, of element.  A line is the count, a space and the element when
  \<open>store_frequency\<close> is set, and the element otherwise.  Sorting the written
  entries again changes nothing.  Neither the order in which the collection is read
  nor the order of the batches and of the elements within them changes the lines.
  Every count written is at least 1 and is written in decimal.
\<close>

theorem order_by_decreasing_counts_sorted:
  "mset (sorted_counts (surviving_counts spec lsts)) =
     mset (if surviving_counts spec lsts = [] then [sentinel] else surviving_counts spec lsts)
   \<and> sorted_wrt (\<lambda>a b. fst b < fst a \<or> (fst a = fst b \<and> snd b < snd a))
       (sorted_counts (surviving_counts spec lsts))
   \<and> order_by_decreasing_counts (surviving_counts spec lsts) (store_frequency spec) =
       map (\<lambda>(count, element).
              if store_frequency spec then str_int count @ '' '' @ element else element)
         (sorted_counts (surviving_counts spec lsts))
   \<and> (\<forall>a \<in> set (sorted_counts (surviving_counts spec lsts)).
         1 \<le> fst a \<and> decimal_value (str_int (fst a)) = nat (fst a))
   \<and> rev (sort (sorted_counts (surviving_counts spec lsts)))
       = sorted_counts (surviving_counts spec lsts)
   \<and> (mset counts' = mset (surviving_counts spec lsts) \<longrightarrow>
        order_by_decreasing_counts counts' (store_frequency spec) =
        order_by_decreasing_counts (surviving_counts spec lsts) (store_frequency spec))
   \<and> (mset (map mset lsts') = mset (map mset lsts) \<longrightarrow>
        order_by_decreasing_counts (surviving_counts spec lsts') (store_frequency spec) =
        order_by_decreasing_counts (surviving_counts spec lsts) (store_frequency spec))"
proof -
  have "mset counts' = mset (surviving_counts spec lsts) \<Longrightarrow>
      order_by_decreasing_counts counts' (store_frequency spec) =
      order_by_decreasing_counts (surviving_counts spec lsts) (store_frequency spec)"
    using sorted_counts_perm [of counts' "surviving_counts spec lsts"]
    by (simp only: order_by_decreasing_counts_lines)
  moreover have "\<forall>a \<in> set (sorted_counts (surviving_counts spec lsts)).
      1 \<le> fst a \<and> decimal_value (str_int (fst a)) = nat (fst a)"
  proof
    fix a assume "a \<in> set (sorted_counts (surviving_counts spec lsts))"
    then have "1 \<le> fst a" by (rule positive_counts)
    then show "1 \<le> fst a \<and> decimal_value (str_int (fst a)) = nat (fst a)"
      by (simp add: str_int_nonneg)
  qed
  ultimately show ?thesis
    using mset_sorted_counts [of "surviving_counts spec lsts"]
      strictly_decreasing_sorted_counts [OF distinct_surviving_counts, of spec lsts]
      order_by_decreasing_counts_lines [of "surviving_counts spec lsts" "store_frequency spec"]
      resort_sorted_counts [of "surviving_counts spec lsts"]
      vocabulary_perm [of lsts' lsts spec "store_frequency spec"]
    by blast
qed

theorem order_by_decreasing_counts_sorted_witness:
  "surviving_counts
      \<lparr>top_k = None, frequency_threshold = None, store_frequency = True, vocab_filename = ''vocab''\<rparr>
      [[''a'', ''b'', ''a''], [''c'', ''b'', ''a'']] = [(1, ''c''), (2, ''b''), (3, ''a'')]
   \<and> mset [(3, ''a''), (1, ''c''), (2, ''b'')] = mset [(1, ''c''), (2, ''b''), (3, ''a'')]
   \<and> mset (map mset [[''a'', ''b'', ''c''], [''b'', ''a'', ''a'']])
       = mset (map mset [[''a'', ''b'', ''a''], [''c'', ''b'', ''a'']])
   \<and> sorted_counts [(1, ''c''), (2, ''b''), (3, ''a'')] = [(3, ''a''), (2, ''b''), (1, ''c'')]
   \<and> order_by_decreasing_counts [(3, ''a''), (1, ''c''), (2, ''b'')] True = [''3 a'', ''2 b'', ''1 c'']
   \<and> order_by_decreasing_counts
        (surviving_counts
           \<lparr>top_k = None, frequency_threshold = None, store_frequency = True,
            vocab_filename = ''vocab''\<rparr> [[''a'', ''b'', ''c''], [''b'', ''a'', ''a'']]) True
       = [''3 a'', ''2 b'', ''1 c'']"
proof -
  let ?spec = "\<lparr>top_k = None, frequency_threshold = None, store_frequency = True,
    vocab_filename = ''vocab''\<rparr>"
  have s: "surviving_counts ?spec [[''a'', ''b'', ''a''], [''c'', ''b'', ''a'']]
      = [(1, ''c''), (2, ''b''), (3, ''a'')]"
    by code_simp
  have m: "mset [(3, ''a''), (1, ''c''), (2, ''b'')] = mset [(1::int, ''c''), (2, ''b''), (3, ''a'')]"
    by simp
  have a: "mset [''a'', ''b'', ''c''] = mset [''c'', ''b'', ''a'']" by simp
  have b: "mset [''b'', ''a'', ''a''] = mset [''a'', ''b'', ''a'']" by simp
  have p: "mset (map mset [[''a'', ''b'', ''c''], [''b'', ''a'', ''a'']])
      = mset (map mset [[''a'', ''b'', ''a''], [''c'', ''b'', ''a'']])"
    using a b by (simp add: add_mset_commute)
  have o: "order_by_decreasing_counts [(1, ''c''), (2, ''b''), (3, ''a'')] True
      = [''3 a'', ''2 b'', ''1 c'']"
    by code_simp
  have c: "sorted_counts [(1, ''c''), (2, ''b''), (3, ''a'')] = [(3, ''a''), (2, ''b''), (1, ''c'')]"
    by code_simp
  show ?thesis
    using order_by_decreasing_counts_sorted
      [of ?spec "[[''a'', ''b'', ''a''], [''c'', ''b'', ''a'']]" "[(3, ''a''), (1, ''c''), (2, ''b'')]"
          "[[''a'', ''b'', ''c''], [''b'', ''a'', ''a'']]"]
      s m p o c
    by simp
qed

text \<open>
  C3, as stated, fails: with \<open>top_k = 0\<close> nothing is selected, the sentinel is
  substituted, and one entry is emitted.
\<close>

theorem top_k_zero_counterexample:
  "top_k \<lparr>top_k = Some 0, frequency_threshold = None, store_frequency = False,
           vocab_filename = ''vocab''\<rparr> = Some 0
   \<and> order_by_decreasing_counts
        (surviving_counts
           \<lparr>top_k = Some 0, frequency_threshold = None, store_frequency = False,
            vocab_filename = ''vocab''\<rparr> [[''a'']]) False
       = [''49d0cd50-04bb-48c0-bc6f-5b575dce351a'']
   \<and> \<not> length (order_by_decreasing_counts
        (surviving_counts
           \<lparr>top_k = Some 0, frequency_threshold = None, store_frequency = False,
            vocab_filename = ''vocab''\<rparr> [[''a'']]) False) \<le> nat 0"
  by code_simp

text \<open>
  C3, amended.  With \<open>top_k = k\<close>, when \<open>k\<close> is at least 1 and some entry passes the
  filters, the emitted entries are the greatest entries that pass the filters, \<open>k\<close>
  of them or all when there are fewer, in decreasing order; every entry left out is
  smaller than every emitted one.  When \<open>k\<close> is 0 or no entry passes the filters, the
  sentinel alone is emitted.
\<close>

theorem top_k_emitted:
  assumes "top_k spec = Some k" and "0 \<le> k"
  shows "(1 \<le> k \<and> filtered_counts spec lsts \<noteq> [] \<longrightarrow>
           sorted_counts (surviving_counts spec lsts)
             = take (nat k) (rev (sort (filtered_counts spec lsts)))
         \<and> length (sorted_counts (surviving_counts spec lsts))
             = min (nat k) (length (filtered_counts spec lsts))
         \<and> set (sorted_counts (surviving_counts spec lsts)) \<subseteq> set (filtered_counts spec lsts)
         \<and> (\<forall>a \<in> set (sorted_counts (surviving_counts spec lsts)).
              \<forall>b \<in> set (filtered_counts spec lsts) - set (sorted_counts (surviving_counts spec lsts)).
                fst b < fst a \<or> (fst a = fst b \<and> snd b < snd a)))
       \<and> (k = 0 \<or> filtered_counts spec lsts = [] \<longrightarrow>
           sorted_counts (surviving_counts spec lsts) = [sentinel])"
proof -
  let ?F = "filtered_counts spec lsts"
  let ?T = "take (nat k) (rev (sort ?F))"
  have S: "surviving_counts spec lsts = ?T"
    using assms(1) by (rule surviving_counts_Some)
  have empty: "sorted_counts ?T = [sentinel]" if "k = 0 \<or> ?F = []"
  proof -
    have "?T = []" using that by auto
    then show ?thesis by (simp only: sorted_counts_Nil)
  qed
  have full: "sorted_counts ?T = ?T
      \<and> length ?T = min (nat k) (length ?F)
      \<and> set ?T \<subseteq> set ?F
      \<and> (\<forall>a \<in> set ?T. \<forall>b \<in> set ?F - set ?T. fst b < fst a \<or> (fst a = fst b \<and> snd b < snd a))"
    if "1 \<le> k" and "?F \<noteq> []"
  proof -
    have len: "length ?T = min (nat k) (length ?F)" by simp
    have "?T \<noteq> []"
    proof
      assume "?T = []"
      then have "length ?T = 0" by (simp only: list.size)
      with len that show False by (simp add: min_def split: if_splits)
    qed
    then have "sorted_counts ?T = ?T"
      using sorted_rev_take_rev_sort [of "nat k" ?F] by (intro sorted_counts_fixed)
    moreover note len
    moreover have "set ?T \<subseteq> set ?F" using set_take_subset [of "nat k" "rev (sort ?F)"] by simp
    moreover have "\<forall>a \<in> set ?T. \<forall>b \<in> set ?F - set ?T.
        fst b < fst a \<or> (fst a = fst b \<and> snd b < snd a)"
    proof -
      have "\<forall>a \<in> set ?T. \<forall>b \<in> set ?F - set ?T. b < a"
        using take_rev_sort_greatest [of _ "nat k" ?F] by blast
      then show ?thesis by (simp only: entry_less_iff)
    qed
    ultimately show ?thesis by blast
  qed
  show ?thesis
    unfolding S using empty full by metis
qed

theorem top_k_emitted_witness:
  "top_k \<lparr>top_k = Some 2, frequency_threshold = None, store_frequency = True,
          vocab_filename = ''vocab''\<rparr> = Some 2
   \<and> (0::int) \<le> 2 \<and> (1::int) \<le> 2
   \<and> filtered_counts \<lparr>top_k = Some 2, frequency_threshold = None, store_frequency = True,
          vocab_filename = ''vocab''\<rparr> [[''a'', ''b'', ''a''], [''c'', ''b'', ''a'']] \<noteq> []
   \<and> sorted_counts (surviving_counts \<lparr>top_k = Some 2, frequency_threshold = None,
          store_frequency = True, vocab_filename = ''vocab''\<rparr>
          [[''a'', ''b'', ''a''], [''c'', ''b'', ''a'']]) = [(3, ''a''), (2, ''b'')]
   \<and> length (sorted_counts (surviving_counts \<lparr>top_k = Some 2, frequency_threshold = None,
          store_frequency = True, vocab_filename = ''vocab''\<rparr>
          [[''a'', ''b'', ''a''], [''c'', ''b'', ''a'']])) = 2
   \<and> top_k \<lparr>top_k = Some 0, frequency_threshold = None, store_frequency = True,
          vocab_filename = ''vocab''\<rparr> = Some 0
   \<and> sorted_counts (surviving_counts \<lparr>top_k = Some 0, frequency_threshold = None,
          store_frequency = True, vocab_filename = ''vocab''\<rparr>
          [[''a'', ''b'', ''a''], [''c'', ''b'', ''a'']]) = [sentinel]"
proof -
  let ?spec = "\<lparr>top_k = Some 2, frequency_threshold = None, store_frequency = True,
    vocab_filename = ''vocab''\<rparr>"
  let ?zero = "\<lparr>top_k = Some 0, frequency_threshold = None, store_frequency = True,
    vocab_filename = ''vocab''\<rparr>"
  let ?lsts = "[[''a'', ''b'', ''a''], [''c'', ''b'', ''a'']]"
  have k: "top_k ?spec = Some 2" by simp
  have z: "top_k ?zero = Some 0" by simp
  have f: "filtered_counts ?spec ?lsts = [(1, ''c''), (2, ''b''), (3, ''a'')]" by code_simp
  have t: "take (nat 2) (rev (sort [(1::int, ''c''), (2, ''b''), (3, ''a'')]))
      = [(3, ''a''), (2, ''b'')]" by code_simp
  show ?thesis
    using top_k_emitted [OF k, of ?lsts] top_k_emitted [OF z, of ?lsts] f t by simp
qed

text \<open>
  C4, as stated, fails: with \<open>frequency_threshold = 2\<close> and the single element
  \<open>a\<close> no entry passes the filter, and the sentinel is emitted with count 1.
\<close>

theorem frequency_threshold_sentinel_counterexample:
  "frequency_threshold \<lparr>top_k = None, frequency_threshold = Some 2, store_frequency = True,
           vocab_filename = ''vocab''\<rparr> = Some 2
   \<and> sorted_counts
        (surviving_counts
           \<lparr>top_k = None, frequency_threshold = Some 2, store_frequency = True,
            vocab_filename = ''vocab''\<rparr> [[''a'']])
       = [(1, ''49d0cd50-04bb-48c0-bc6f-5b575dce351a'')]
   \<and> order_by_decreasing_counts
        (surviving_counts
           \<lparr>top_k = None, frequency_threshold = Some 2, store_frequency = True,
            vocab_filename = ''vocab''\<rparr> [[''a'']]) True
       = [''1 49d0cd50-04bb-48c0-bc6f-5b575dce351a'']
   \<and> \<not> (2::int) \<le> fst (hd (sorted_counts
        (surviving_counts
           \<lparr>top_k = None, frequency_threshold = Some 2, store_frequency = True,
            vocab_filename = ''vocab''\<rparr> [[''a'']])))"
  by code_simp

text \<open>
  C4, amended.  With \<open>frequency_threshold = t\<close>, every emitted entry has a count of at
  least \<open>t\<close> unless no entry survives, and then the sentinel alone is emitted.  An entry
  that passed the element filter and has a count of at least \<open>t\<close> is emitted when
  \<open>top_k\<close> is not set; when \<open>top_k = k\<close> is set and the entry is left out, \<open>k\<close>
  entries were selected and each of them is greater.
\<close>

theorem frequency_threshold_emitted:
  assumes "frequency_threshold spec = Some t"
  shows "(surviving_counts spec lsts \<noteq> [] \<longrightarrow>
           (\<forall>a \<in> set (sorted_counts (surviving_counts spec lsts)). t \<le> fst a))
       \<and> (surviving_counts spec lsts = [] \<longrightarrow>
           sorted_counts (surviving_counts spec lsts) = [sentinel])
       \<and> (\<forall>a \<in> set (KvSwap (FilterProblematicStrings (CountGlobally lsts))). t \<le> fst a \<longrightarrow>
             (top_k spec = None \<longrightarrow> a \<in> set (sorted_counts (surviving_counts spec lsts)))
           \<and> (\<forall>k. top_k spec = Some k \<and> a \<notin> set (surviving_counts spec lsts) \<longrightarrow>
                 length (surviving_counts spec lsts) = nat k
               \<and> (\<forall>b \<in> set (surviving_counts spec lsts).
                     fst a < fst b \<or> (fst b = fst a \<and> snd a < snd b))))"
proof -
  let ?S = "surviving_counts spec lsts"
  let ?F = "filtered_counts spec lsts"
  have F: "a \<in> set ?F \<longleftrightarrow>
      a \<in> set (KvSwap (FilterProblematicStrings (CountGlobally lsts))) \<and> t \<le> fst a" for a
    using assms set_filtered_counts [of "fst a" "snd a" spec lsts]
    by (simp add: set_KvSwap [symmetric])
  have 1: "\<forall>a \<in> set (sorted_counts ?S). t \<le> fst a" if "?S \<noteq> []"
  proof
    fix a assume "a \<in> set (sorted_counts ?S)"
    then have "a \<in> set ?S" using that by (simp add: set_sorted_counts)
    then have "a \<in> set ?F" using set_surviving_subset [of spec lsts] by blast
    then show "t \<le> fst a" by (simp add: F)
  qed
  have 2: "sorted_counts ?S = [sentinel]" if "?S = []"
    using that by (simp only: sorted_counts_Nil)
  have 3: "a \<in> set (sorted_counts ?S)"
    if "a \<in> set (KvSwap (FilterProblematicStrings (CountGlobally lsts)))" "t \<le> fst a"
      "top_k spec = None" for a
  proof -
    have "a \<in> set ?S" using that by (simp add: surviving_counts_None F)
    then show ?thesis by (auto simp: set_sorted_counts)
  qed
  have 4: "length ?S = nat k \<and> (\<forall>b \<in> set ?S. fst a < fst b \<or> (fst b = fst a \<and> snd a < snd b))"
    if "a \<in> set (KvSwap (FilterProblematicStrings (CountGlobally lsts)))" "t \<le> fst a"
      "top_k spec = Some k" "a \<notin> set ?S" for a k
  proof -
    have S: "?S = take (nat k) (rev (sort ?F))" using that(3) by (rule surviving_counts_Some)
    have a: "a \<in> set ?F" using that by (simp add: F)
    have na: "a \<notin> set (take (nat k) (rev (sort ?F)))"
      using that(4) by (simp only: S not_False_eq_True)
    have "length (take (nat k) (rev (sort ?F))) = nat k"
      by (rule take_rev_sort_short [OF a na])
    then have "length ?S = nat k" by (simp only: S)
    moreover have "\<forall>b \<in> set (take (nat k) (rev (sort ?F))). a < b"
      using take_rev_sort_greatest [OF _ a na] by blast
    then have "\<forall>b \<in> set ?S. a < b" by (simp only: S)
    then have "\<forall>b \<in> set ?S. fst a < fst b \<or> (fst b = fst a \<and> snd a < snd b)"
      by (simp only: entry_less_iff)
    ultimately show ?thesis by blast
  qed
  show ?thesis using 1 2 3 4 by blast
qed

theorem frequency_threshold_emitted_witness:
  "frequency_threshold \<lparr>top_k = Some 1, frequency_threshold = Some 2, store_frequency = True,
          vocab_filename = ''vocab''\<rparr> = Some 2
   \<and> surviving_counts \<lparr>top_k = Some 1, frequency_threshold = Some 2, store_frequency = True,
          vocab_filename = ''vocab''\<rparr> [[''a'', ''b'', ''a''], [''c'', ''b'', ''a'']]
       = [(3, ''a'')]
   \<and> (2, ''b'') \<in> set (KvSwap (FilterProblematicStrings
          (CountGlobally [[''a'', ''b'', ''a''], [''c'', ''b'', ''a'']])))
   \<and> (2, ''b'') \<notin> set [(3 :: int, ''a'')]
   \<and> sorted_counts [(3, ''a'')] = [(3, ''a'')]
   \<and> (2 :: int) \<le> fst (3 :: int, ''a'')
   \<and> length [(3 :: int, ''a'')] = nat 1
   \<and> sorted_counts (surviving_counts \<lparr>top_k = None, frequency_threshold = Some 2,
          store_frequency = True, vocab_filename = ''vocab''\<rparr>
          [[''a'', ''b'', ''a''], [''c'', ''b'', ''a'']]) = [(3, ''a''), (2, ''b'')]
   \<and> surviving_counts \<lparr>top_k = None, frequency_threshold = Some 4,
          store_frequency = True, vocab_filename = ''vocab''\<rparr>
          [[''a'', ''b'', ''a''], [''c'', ''b'', ''a'']] = []
   \<and> sorted_counts (surviving_counts \<lparr>top_k = None, frequency_threshold = Some 4,
          store_frequency = True, vocab_filename = ''vocab''\<rparr>
          [[''a'', ''b'', ''a''], [''c'', ''b'', ''a'']]) = [sentinel]"
proof -
  let ?spec = "\<lparr>top_k = Some 1, frequency_threshold = Some 2, store_frequency = True,
    vocab_filename = ''vocab''\<rparr>"
  let ?all = "\<lparr>top_k = None, frequency_threshold = Some 2, store_frequency = True,
    vocab_filename = ''vocab''\<rparr>"
  let ?high = "\<lparr>top_k = None, frequency_threshold = Some 4, store_frequency = True,
    vocab_filename = ''vocab''\<rparr>"
  let ?lsts = "[[''a'', ''b'', ''a''], [''c'', ''b'', ''a'']]"
  have t: "frequency_threshold ?spec = Some 2" by simp
  have ta: "frequency_threshold ?all = Some 2" by simp
  have th: "frequency_threshold ?high = Some 4" by simp
  have s: "surviving_counts ?spec ?lsts = [(3, ''a'')]" by code_simp
  have sa: "sorted_counts (surviving_counts ?all ?lsts) = [(3, ''a''), (2, ''b'')]" by code_simp
  have sh: "surviving_counts ?high ?lsts = []" by code_simp
  have c: "KvSwap (FilterProblematicStrings (CountGlobally ?lsts))
      = [(1, ''c''), (2, ''b''), (3, ''a'')]" by code_simp
  have e: "sorted_counts [(3, ''a'')] = [(3, ''a'')]" by code_simp
  show ?thesis
    using frequency_threshold_emitted [OF t, of ?lsts]
      frequency_threshold_emitted [OF ta, of ?lsts]
      frequency_threshold_emitted [OF th, of ?lsts] s sa sh c e
    by simp
qed

text \<open>
  C5.  The mandatory filter discards a counted element exactly when it is empty or contains
  a line feed or a carriage return, and keeps nothing that was not counted.  Hence no
  emitted element, the sentinel included, is empty or contains one of the two characters.
\<close>

theorem FilterProblematicStrings_exact:
  "(kv \<in> set counts \<longrightarrow>
      (kv \<notin> set (FilterProblematicStrings counts) \<longleftrightarrow>
         fst kv = [] \<or> CHR 0x0A \<in> set (fst kv) \<or> CHR 0x0D \<in> set (fst kv)))
   \<and> set (FilterProblematicStrings counts) \<subseteq> set counts
   \<and> (\<forall>a \<in> set (sorted_counts (surviving_counts spec lsts)).
         snd a \<noteq> [] \<and> CHR 0x0A \<notin> set (snd a) \<and> CHR 0x0D \<notin> set (snd a))"
proof -
  have "snd a \<noteq> [] \<and> CHR 0x0A \<notin> set (snd a) \<and> CHR 0x0D \<notin> set (snd a)"
    if "a \<in> set (sorted_counts (surviving_counts spec lsts))" for a
  proof (cases "surviving_counts spec lsts = []")
    case True
    then have "a = sentinel" using that by (simp add: set_sorted_counts)
    then show ?thesis using sentinel_clean by simp
  next
    case False
    then have "a \<in> set (surviving_counts spec lsts)" using that by (simp add: set_sorted_counts)
    then have "(fst a, snd a) \<in> set (filtered_counts spec lsts)"
      using set_surviving_subset [of spec lsts] by auto
    then have "(snd a, fst a) \<in> set (FilterProblematicStrings (CountGlobally lsts))"
      by (simp only: set_filtered_counts)
    then show ?thesis by (simp add: set_FilterProblematicStrings)
  qed
  moreover have "set (FilterProblematicStrings counts) \<subseteq> set counts"
    using set_FilterProblematicStrings [of _ counts] by blast
  ultimately show ?thesis
    using set_FilterProblematicStrings [of kv counts] by blast
qed

theorem FilterProblematicStrings_exact_witness:
  "(''b'', 1) \<in> set [(''a'' @ [CHR 0x0A], 2), (''b'', 1 :: int), ('''', 3), (''c'' @ [CHR 0x0D], 1)]
   \<and> FilterProblematicStrings
        [(''a'' @ [CHR 0x0A], 2), (''b'', 1), ('''', 3), (''c'' @ [CHR 0x0D], 1)] = [(''b'', 1)]
   \<and> sorted_counts (surviving_counts
        \<lparr>top_k = None, frequency_threshold = None, store_frequency = False,
         vocab_filename = ''vocab''\<rparr> [[''a'' @ [CHR 0x0A], ''b'', '''']]) = [(1, ''b'')]
   \<and> snd (1 :: int, ''b'') \<noteq> []
   \<and> CHR 0x0A \<notin> set (snd (1 :: int, ''b''))
   \<and> CHR 0x0D \<notin> set (snd (1 :: int, ''b''))"
proof -
  let ?spec = "\<lparr>top_k = None, frequency_threshold = None, store_frequency = False,
    vocab_filename = ''vocab''\<rparr>"
  have f: "FilterProblematicStrings
      [(''a'' @ [CHR 0x0A], 2), (''b'', 1), ('''', 3), (''c'' @ [CHR 0x0D], 1)] = [(''b'', 1)]"
    by code_simp
  have s: "sorted_counts (surviving_counts ?spec [[''a'' @ [CHR 0x0A], ''b'', '''']])
      = [(1, ''b'')]"
    by code_simp
  show ?thesis
    using FilterProblematicStrings_exact
      [of "(''b'', 1)" "[(''a'' @ [CHR 0x0A], 2), (''b'', 1), ('''', 3), (''c'' @ [CHR 0x0D], 1)]"
          ?spec "[[''a'' @ [CHR 0x0A], ''b'', '''']]"] f s
    by simp
qed

text \<open>
  C6.  When no entry is left after the element filter, the frequency filter and the
  selection, exactly one entry is emitted: the sentinel, with count 1.  The lines
  produced are never empty, so a run that succeeds writes a file of at least one line.
\<close>

theorem sentinel_when_empty:
  "(surviving_counts spec lsts = [] \<longrightarrow>
      sorted_counts (surviving_counts spec lsts) = [sentinel]
      \<and> fst sentinel = 1
      \<and> length (order_by_decreasing_counts (surviving_counts spec lsts) (store_frequency spec)) = 1)
   \<and> order_by_decreasing_counts counts sf \<noteq> []
   \<and> (UniquesAnalyzerImpl_expand spec dir pcoll = Inr (r :: 'r run) \<longrightarrow>
        length (written r) = 1 \<and> snd (hd (written r)) \<noteq> [])"
proof -
  have e: "surviving_counts spec lsts = [] \<Longrightarrow>
      length (order_by_decreasing_counts (surviving_counts spec lsts) (store_frequency spec)) = 1"
    by (simp add: order_by_decreasing_counts_lines sorted_counts_Nil)
  have w: "length (written r) = 1 \<and> snd (hd (written r)) \<noteq> []"
    if "UniquesAnalyzerImpl_expand spec dir pcoll = Inr r"
    using UniquesAnalyzerImpl_expand_written [OF that] order_by_decreasing_counts_nonempty
    by auto
  show ?thesis
    using e w order_by_decreasing_counts_nonempty [of counts sf] sorted_counts_Nil
    by (simp add: sentinel_def)
qed

theorem sentinel_when_empty_witness:
  "surviving_counts \<lparr>top_k = None, frequency_threshold = None, store_frequency = False,
         vocab_filename = ''vocab''\<rparr> [] = []
   \<and> UniquesAnalyzerImpl_expand \<lparr>top_k = None, frequency_threshold = None,
         store_frequency = False, vocab_filename = ''vocab''\<rparr> ''tmp'' []
       = Inr (\<lparr>written = [(''tmp/vocab'', [''49d0cd50-04bb-48c0-bc6f-5b575dce351a''])],
              returned = [VocabularyPath ''tmp/vocab'']\<rparr> :: unit run)
   \<and> length [(''tmp/vocab'', [''49d0cd50-04bb-48c0-bc6f-5b575dce351a''])] = 1
   \<and> sorted_counts [] = [sentinel]"
proof -
  let ?spec = "\<lparr>top_k = None, frequency_threshold = None, store_frequency = False,
    vocab_filename = ''vocab''\<rparr>"
  have s: "surviving_counts ?spec [] = []" by code_simp
  have u: "UniquesAnalyzerImpl_expand ?spec ''tmp'' []
      = Inr (\<lparr>written = [(''tmp/vocab'', [''49d0cd50-04bb-48c0-bc6f-5b575dce351a''])],
             returned = [VocabularyPath ''tmp/vocab'']\<rparr> :: unit run)"
    by code_simp
  show ?thesis
    using sentinel_when_empty [of ?spec "[]" "[]" False "''tmp''" "[]"
        "\<lparr>written = [(''tmp/vocab'', [''49d0cd50-04bb-48c0-bc6f-5b575dce351a''])],
          returned = [VocabularyPath ''tmp/vocab'']\<rparr> :: unit run"] s u
    by simp
qed

text \<open>
  C9.  The sentinel is the count 1 with the element
  \<^verbatim>\<open>49d0cd50-04bb-48c0-bc6f-5b575dce351a\<close>.  For an empty collection the only line is
  that element, preceded by the count 1 and a space when frequencies are stored.
\<close>

theorem sentinel_lines:
  "sorted_counts [] = [(1, ''49d0cd50-04bb-48c0-bc6f-5b575dce351a'')]
   \<and> order_by_decreasing_counts [] False = [''49d0cd50-04bb-48c0-bc6f-5b575dce351a'']
   \<and> order_by_decreasing_counts [] True = [''1 49d0cd50-04bb-48c0-bc6f-5b575dce351a'']"
  by code_simp

theorem sentinel_lines_witness:
  "length (order_by_decreasing_counts [] False) = 1
   \<and> hd (order_by_decreasing_counts [] True) = ''1 49d0cd50-04bb-48c0-bc6f-5b575dce351a''"
  using sentinel_lines by simp

subsection \<open>The combiner analyzer and the dispatcher\<close>

lemma UniquesAnalyzerImpl_expand_never_NotImplemented:
  "UniquesAnalyzerImpl_expand spec dir pcoll \<noteq> Inl NotImplementedError"
  using Map_beam_never_NotImplemented [of pcoll]
  by (auto simp: UniquesAnalyzerImpl_expand_def Let_def split: sum.splits)

lemma CombinerAnalyzerImpl_expand_Inr:
  "CombinerAnalyzerImpl_expand spec pcoll =
     Inr \<lparr>written = [],
          returned = map Combined (CombineGlobally (is_QuantilesCombinerSpec spec) spec pcoll)\<rparr>"
  by (simp add: CombinerAnalyzerImpl_expand_def)

text \<open>
  C7, as stated, fails: the running sum is not a quantiles spec, and on an empty
  collection its analyzer raises nothing and returns an empty collection.
\<close>

theorem empty_input_no_error_counterexample:
  "\<not> is_QuantilesCombinerSpec running_sum_spec
   \<and> CombinerAnalyzerImpl_expand running_sum_spec [] = Inr \<lparr>written = [], returned = []\<rparr>
   \<and> \<not> isl (CombinerAnalyzerImpl_expand running_sum_spec [])"
  by (simp add: CombinerAnalyzerImpl_expand_def CombineGlobally_def running_sum_spec_def)

text \<open>
  C7, amended.  On an empty collection the combiner analyzer raises no error.  For a
  quantiles spec it returns one value, the output extracted from the empty accumulator;
  for every other spec it returns the empty collection.
\<close>

theorem CombinerAnalyzerImpl_expand_empty:
  "CombinerAnalyzerImpl_expand spec [] =
     Inr \<lparr>written = [],
          returned = (if is_QuantilesCombinerSpec spec
                      then [Combined (extract_output spec (create_accumulator spec))]
                      else [])\<rparr>"
  by (simp add: CombinerAnalyzerImpl_expand_def CombineGlobally_def)

theorem CombinerAnalyzerImpl_expand_empty_witness:
  "CombinerAnalyzerImpl_expand (running_sum_spec\<lparr>is_QuantilesCombinerSpec := True\<rparr>) []
     = Inr \<lparr>written = [], returned = [Combined 0]\<rparr>
   \<and> CombinerAnalyzerImpl_expand running_sum_spec [] = Inr \<lparr>written = [], returned = []\<rparr>
   \<and> CombinerAnalyzerImpl_expand running_sum_spec [[1, 2], [3], [4, 5]]
       = Inr \<lparr>written = [], returned = [Combined 15]\<rparr>"
  using CombinerAnalyzerImpl_expand_empty [of "running_sum_spec\<lparr>is_QuantilesCombinerSpec := True\<rparr>"]
    CombinerAnalyzerImpl_expand_empty [of running_sum_spec]
  by (simp add: running_sum_spec_def CombinerAnalyzerImpl_expand_def CombineGlobally_def)

text \<open>
  C8.  The dispatcher hands a uniques spec to the uniques analyzer and a combiner spec to
  the combiner analyzer, with the same result and nothing else done; it raises
  \<^verbatim>\<open>NotImplementedError\<close> exactly when the spec is of neither kind.
\<close>

theorem AnalyzerImpl_expand_dispatch:
  "AnalyzerImpl_expand (IsUniquesSpec u) dir pcoll = UniquesAnalyzerImpl_expand u dir pcoll
   \<and> AnalyzerImpl_expand (IsCombinerSpec c) dir pcoll = CombinerAnalyzerImpl_expand c pcoll
   \<and> (AnalyzerImpl_expand spec dir pcoll = Inl NotImplementedError \<longleftrightarrow> spec = OtherSpec)"
  using UniquesAnalyzerImpl_expand_never_NotImplemented
  by (cases spec) (simp_all add: CombinerAnalyzerImpl_expand_Inr)

theorem AnalyzerImpl_expand_dispatch_witness:
  "AnalyzerImpl_expand (OtherSpec :: (int, string ndarray list, int) AnalyzerSpec) ''tmp'' []
     = Inl NotImplementedError
   \<and> AnalyzerImpl_expand
        (IsUniquesSpec \<lparr>top_k = None, frequency_threshold = None, store_frequency = False,
           vocab_filename = ''vocab''\<rparr> :: (int, string ndarray list, int) AnalyzerSpec)
        ''tmp'' [[Axis [Scalar ''a'', Scalar ''b'', Scalar ''a'']]]
       = Inr \<lparr>written = [(''tmp/vocab'', [''a'', ''b''])], returned = [VocabularyPath ''tmp/vocab'']\<rparr>"
proof -
  let ?u = "\<lparr>top_k = None, frequency_threshold = None, store_frequency = False,
    vocab_filename = ''vocab''\<rparr>"
  have u: "UniquesAnalyzerImpl_expand ?u ''tmp'' [[Axis [Scalar ''a'', Scalar ''b'', Scalar ''a'']]]
      = Inr (\<lparr>written = [(''tmp/vocab'', [''a'', ''b''])],
             returned = [VocabularyPath ''tmp/vocab'']\<rparr> :: int run)"
    by code_simp
  show ?thesis
    using AnalyzerImpl_expand_dispatch
      [of ?u "''tmp''" "[[Axis [Scalar ''a'', Scalar ''b'', Scalar ''a'']]]" _
          "OtherSpec :: (int, string ndarray list, int) AnalyzerSpec"] u
    by simp
qed

end
